theory Spec2Isabelle
  imports
    Complex_Main
    "HOL-Library.AList"
    "HOL-Library.Multiset"
    "HOL-Library.Sublist"
    "HOL-Library.Log_Nat"
    "HOL-Library.Char_ord"
    "HOL-Library.List_Lexorder"
begin

section \<open>Python values the notebooks compute with\<close>

text \<open>
  The exceptions the modelled cells can raise. \<open>Exception\<close> carries its message
  (\<open>raise Exception(f"{model_name} not supported")\<close>); \<open>KeyError\<close> carries the
  missing key.
\<close>

datatype error =
    Exception string
  | KeyError string
  | TypeError
  | ZeroDivisionError
  | OverflowError

text \<open>
  A Python \<open>dict\<close> keeps its keys in insertion order: \<open>d[k] = v\<close> overwrites the
  value of a key that is present, in place, and appends a new key at the end. That is
  \<open>AList.update\<close> on an association list. \<open>d[k]\<close> raises \<open>KeyError\<close> on a
  missing key; \<open>d.values()\<close> lists the values in key order.
\<close>

type_synonym ('k, 'v) dict = "('k \<times> 'v) list"

definition dict_set :: "('k, 'v) dict \<Rightarrow> 'k \<Rightarrow> 'v \<Rightarrow> ('k, 'v) dict" where
  "dict_set d k v = AList.update k v d"

definition dict_values :: "('k, 'v) dict \<Rightarrow> 'v list" where
  "dict_values d = map snd d"

definition getitem :: "(string, 'v) dict \<Rightarrow> string \<Rightarrow> error + 'v" where
  "getitem d k = (case map_of d k of None \<Rightarrow> Inl (KeyError k) | Some v \<Rightarrow> Inr v)"

subsection \<open>True division of integers\<close>

text \<open>
  \<open>a / b\<close> on two Python \<open>int\<close>s is true division: it raises
  \<open>ZeroDivisionError\<close> when \<open>b\<close> is zero, and otherwise returns the \<open>float\<close>
  nearest to the exact quotient (binary64, ties to even, gradual underflow), raising
  \<open>OverflowError\<close> when that is beyond the largest finite \<open>float\<close>. A finite
  \<open>float\<close> is a dyadic rational, so the result is a \<open>rat\<close>.

  \<open>ilog2 q\<close> is the exponent \<open>e\<close> with \<open>2 ^ e \<le> q < 2 ^ (e + 1)\<close> of a
  positive \<open>q\<close>; the spacing of the \<open>float\<close>s around \<open>q\<close> is
  \<open>2 ^ (e - 52)\<close>, and never below \<open>2 ^ (- 1074)\<close>.
\<close>

definition round_half_even :: "rat \<Rightarrow> int" where
  "round_half_even x =
     (let f = \<lfloor>x\<rfloor>; d = x - of_int f
      in if d < 1 / 2 then f
         else if 1 / 2 < d then f + 1
         else if even f then f else f + 1)"

definition ilog2 :: "rat \<Rightarrow> int" where
  "ilog2 q =
     (let d = bitlen (fst (quotient_of q)) - bitlen (snd (quotient_of q))
      in if 2 powi d \<le> q then d else d - 1)"

definition float_ulp :: "rat \<Rightarrow> rat" where
  "float_ulp q = 2 powi (max (ilog2 \<bar>q\<bar>) (- 1022) - 52)"

definition float_round :: "rat \<Rightarrow> rat" where
  "float_round q =
     (if q = 0 then 0
      else of_int (round_half_even (q / float_ulp q)) * float_ulp q)"

definition truediv :: "int \<Rightarrow> int \<Rightarrow> error + rat" where
  "truediv a b =
     (if b = 0 then Inl ZeroDivisionError
      else let r = float_round (of_int a / of_int b)
           in if 2 ^ 1024 \<le> \<bar>r\<bar> then Inl OverflowError else Inr r)"

section \<open>The progress actor\<close>

text \<open>
  \<^verbatim>\<open>
  class ProgressPIActor:
      def __init__(self, total_num_samples: int):
          self.total_num_samples = total_num_samples
          self.num_samples_completed_per_task = {}
      def report_progress(self, task_id: int, num_samples_completed: int) -> None:
          self.num_samples_completed_per_task[task_id] = num_samples_completed
      def get_progress(self) -> float:
          return (
              sum(self.num_samples_completed_per_task.values()) / self.total_num_samples
          )
  \<close>
  A method takes the actor's state and returns the state after the call, next to its
  result when it has one.
\<close>

record ProgressPIActor =
  total_num_samples :: int
  num_samples_completed_per_task :: "(int, int) dict"

definition ProgressPIActor_init :: "int \<Rightarrow> ProgressPIActor" where
  "ProgressPIActor_init n =
     \<lparr>total_num_samples = n, num_samples_completed_per_task = []\<rparr>"

definition report_progress :: "ProgressPIActor \<Rightarrow> int \<Rightarrow> int \<Rightarrow> ProgressPIActor" where
  "report_progress self task_id num_samples_completed =
     self\<lparr>num_samples_completed_per_task :=
            dict_set (num_samples_completed_per_task self) task_id num_samples_completed\<rparr>"

definition get_progress :: "ProgressPIActor \<Rightarrow> (error + rat) \<times> ProgressPIActor" where
  "get_progress self =
     (truediv (sum_list (dict_values (num_samples_completed_per_task self)))
        (total_num_samples self),
      self)"

text \<open>
  The states an actor can reach: constructed, then any finite sequence of
  \<open>report_progress\<close> messages, each a pair of a task identifier and a count.
\<close>

definition deliver :: "ProgressPIActor \<Rightarrow> (int \<times> int) list \<Rightarrow> ProgressPIActor" where
  "deliver self msgs = foldl (\<lambda>a (task_id, n). report_progress a task_id n) self msgs"

definition in_unit_interval :: "error + rat \<Rightarrow> bool" where
  "in_unit_interval r = (case r of Inl e \<Rightarrow> False | Inr p \<Rightarrow> 0 \<le> p \<and> p \<le> 1)"

text \<open>
  The count a task reported last, in a sequence of delivered messages.
\<close>

definition last_report :: "(int \<times> int) list \<Rightarrow> int \<Rightarrow> int option" where
  "last_report msgs task_id = map_of (rev msgs) task_id"

text \<open>
  The driver's polling cell:
  \<^verbatim>\<open>
  while True:
      progress = ray.get(progress_actor.get_progress.remote())
      print(f"Progress: {int(progress * 100)}%")
      if progress == 1:
          break
      time.sleep(1)
  \<close>
  While the driver sleeps the sampling tasks go on reporting: \<open>arrivals\<close> lists the
  messages the actor receives during each sleep, and no message arrives once the list
  is used up. The loop returns the progress values it has printed; \<open>None\<close> is a loop
  that never leaves.
\<close>

partial_function (option) polling_loop ::
  "ProgressPIActor \<Rightarrow> (int \<times> int) list list \<Rightarrow> rat list \<Rightarrow> (error + rat list) option"
where
  "polling_loop progress_actor arrivals printed =
     (case fst (get_progress progress_actor) of
        Inl e \<Rightarrow> Some (Inl e)
      | Inr progress \<Rightarrow>
          if progress = 1 then Some (Inr (printed @ [progress]))
          else (case arrivals of
                  [] \<Rightarrow> polling_loop progress_actor [] (printed @ [progress])
                | msgs # rest \<Rightarrow>
                    polling_loop (deliver progress_actor msgs) rest (printed @ [progress])))"

declare polling_loop.simps [code]

section \<open>Iteration that can raise\<close>

text \<open>
  A \<open>for\<close> loop over a list whose body can raise stops at the first exception; a
  list comprehension does the same and collects the values.
\<close>

fun for_loop :: "('s \<Rightarrow> 'a \<Rightarrow> error + 's) \<Rightarrow> 's \<Rightarrow> 'a list \<Rightarrow> error + 's" where
  "for_loop body s [] = Inr s"
| "for_loop body s (x # xs) =
     (case body s x of Inl e \<Rightarrow> Inl e | Inr s' \<Rightarrow> for_loop body s' xs)"

fun comprehension :: "('a \<Rightarrow> error + 'b) \<Rightarrow> 'a list \<Rightarrow> error + 'b list" where
  "comprehension f [] = Inr []"
| "comprehension f (x # xs) =
     (case f x of
        Inl e \<Rightarrow> Inl e
      | Inr y \<Rightarrow> (case comprehension f xs of Inl e \<Rightarrow> Inl e | Inr ys \<Rightarrow> Inr (y # ys)))"

section \<open>The sampling task and the estimate of pi\<close>

text \<open>
  \<^verbatim>\<open>
  def sampling_task(num_samples: int, task_id: int,
                    progress_actor: ray.actor.ActorHandle,
                    frequency_report: int = 1_000_000) -> int:
      num_inside = 0
      for i in range(num_samples):
          x, y = random.uniform(-1, 1), random.uniform(-1, 1)
          if math.hypot(x, y) <= 1:
              num_inside += 1
          if (i + 1) % frequency_report == 0:
              progress_actor.report_progress.remote(task_id, i + 1)
      progress_actor.report_progress.remote(task_id, num_samples)
      return num_inside
  \<close>
  The random generator and the library's \<open>math.hypot\<close> are inputs of the model:
  \<open>uniform i\<close> is the pair of numbers drawn in iteration \<open>i\<close>, and \<open>hypot\<close>
  is the floating-point function. The task runs against the actor's state and returns
  the state next to its count. Python's \<open>%\<close> on integers is \<open>mod\<close> on \<open>int\<close>
  (the result has the sign of the divisor) and raises on a zero divisor.
\<close>

definition inside_circle :: "(rat \<Rightarrow> rat \<Rightarrow> rat) \<Rightarrow> rat \<times> rat \<Rightarrow> bool" where
  "inside_circle hypot p = (case p of (x, y) \<Rightarrow> hypot x y \<le> 1)"

definition sampling_step ::
  "(rat \<Rightarrow> rat \<Rightarrow> rat) \<Rightarrow> (nat \<Rightarrow> rat \<times> rat) \<Rightarrow> int \<Rightarrow> int \<Rightarrow>
   ProgressPIActor \<times> int \<Rightarrow> nat \<Rightarrow> error + ProgressPIActor \<times> int"
where
  "sampling_step hypot uniform task_id frequency_report s i =
     (case s of (progress_actor, num_inside) \<Rightarrow>
        let num_inside' =
              (if inside_circle hypot (uniform i) then num_inside + 1 else num_inside)
        in if frequency_report = 0 then Inl ZeroDivisionError
           else if (int i + 1) mod frequency_report = 0
           then Inr (report_progress progress_actor task_id (int i + 1), num_inside')
           else Inr (progress_actor, num_inside'))"

definition sampling_task ::
  "(rat \<Rightarrow> rat \<Rightarrow> rat) \<Rightarrow> (nat \<Rightarrow> rat \<times> rat) \<Rightarrow> int \<Rightarrow> int \<Rightarrow>
   ProgressPIActor \<Rightarrow> int \<Rightarrow> error + ProgressPIActor \<times> int"
where
  "sampling_task hypot uniform num_samples task_id progress_actor frequency_report =
     (case for_loop (sampling_step hypot uniform task_id frequency_report)
             (progress_actor, 0) [0..<nat num_samples] of
        Inl e \<Rightarrow> Inl e
      | Inr (a, num_inside) \<Rightarrow> Inr (report_progress a task_id num_samples, num_inside))"

text \<open>
  \<^verbatim>\<open>
  results = [
      sampling_task.remote(NUM_SAMPLES_PER_TASK, i, progress_actor,
                           frequency_report=SAMPLE_REPORT_FREQUENCY)
      for i in range(NUM_SAMPLING_TASKS)
  ]
  ...
  total_num_inside = sum(ray.get(results))
  pi = (total_num_inside * 4) / TOTAL_NUM_SAMPLES
  \<close>
  The tasks run in parallel and share the actor; \<open>run_tasks\<close> is the schedule that
  runs them one after the other, task \<open>i\<close> drawing from \<open>uniform i\<close>.
\<close>

definition submit_task ::
  "(rat \<Rightarrow> rat \<Rightarrow> rat) \<Rightarrow> (int \<Rightarrow> nat \<Rightarrow> rat \<times> rat) \<Rightarrow> int \<Rightarrow> int \<Rightarrow>
   ProgressPIActor \<times> int list \<Rightarrow> nat \<Rightarrow> error + ProgressPIActor \<times> int list"
where
  "submit_task hypot uniform NUM_SAMPLES_PER_TASK SAMPLE_REPORT_FREQUENCY s i =
     (case s of (progress_actor, results) \<Rightarrow>
        (case sampling_task hypot (uniform (int i)) NUM_SAMPLES_PER_TASK (int i)
                progress_actor SAMPLE_REPORT_FREQUENCY of
           Inl e \<Rightarrow> Inl e
         | Inr (a, num_inside) \<Rightarrow> Inr (a, results @ [num_inside])))"

definition run_tasks ::
  "(rat \<Rightarrow> rat \<Rightarrow> rat) \<Rightarrow> (int \<Rightarrow> nat \<Rightarrow> rat \<times> rat) \<Rightarrow> int \<Rightarrow> int \<Rightarrow> int \<Rightarrow>
   ProgressPIActor \<Rightarrow> error + ProgressPIActor \<times> int list"
where
  "run_tasks hypot uniform NUM_SAMPLING_TASKS NUM_SAMPLES_PER_TASK
       SAMPLE_REPORT_FREQUENCY progress_actor =
     for_loop (submit_task hypot uniform NUM_SAMPLES_PER_TASK SAMPLE_REPORT_FREQUENCY)
       (progress_actor, []) [0..<nat NUM_SAMPLING_TASKS]"

definition estimate_pi :: "int list \<Rightarrow> int \<Rightarrow> error + rat" where
  "estimate_pi results TOTAL_NUM_SAMPLES =
     (let total_num_inside = sum_list results
      in truediv (total_num_inside * 4) TOTAL_NUM_SAMPLES)"

text \<open>The number of points inside the circle among the first \<open>n\<close> draws.\<close>

definition count_inside :: "(rat \<Rightarrow> rat \<Rightarrow> rat) \<Rightarrow> (nat \<Rightarrow> rat \<times> rat) \<Rightarrow> nat \<Rightarrow> int" where
  "count_inside hypot uniform n = int (length (filter (inside_circle hypot) (map uniform [0..<n])))"

text \<open>
  The messages a task sends to the actor: one for every iteration \<open>i\<close> of the given
  ones with \<open>(i + 1) % frequency_report == 0\<close>, then the final one; and the messages
  of the first \<open>n\<close> tasks, one task after the other.
\<close>

definition step_reports :: "int \<Rightarrow> int \<Rightarrow> nat list \<Rightarrow> (int \<times> int) list" where
  "step_reports task_id frequency_report is =
     map (\<lambda>i. (task_id, int i + 1)) (filter (\<lambda>i. (int i + 1) mod frequency_report = 0) is)"

definition task_reports :: "int \<Rightarrow> int \<Rightarrow> int \<Rightarrow> (int \<times> int) list" where
  "task_reports num_samples task_id frequency_report =
     step_reports task_id frequency_report [0..<nat num_samples] @ [(task_id, num_samples)]"

definition all_reports :: "int \<Rightarrow> int \<Rightarrow> nat \<Rightarrow> (int \<times> int) list" where
  "all_reports num_samples frequency_report n =
     concat (map (\<lambda>i. task_reports num_samples (int i) frequency_report) [0..<n])"

section \<open>The model factory and the supervisor\<close>

text \<open>
  \<^verbatim>\<open>
  class ModelFactory:
      MODEL_TYPES = ["random_forest", "decision_tree", "xgboost"]
      @staticmethod
      def create_model(model_name: str) -> ray.actor.ActorHandle:
          if model_name not in ModelFactory.MODEL_TYPES:
              raise Exception(f"{model_name} not supported")
          if model_name == "random_forest":
              configs = RANDOM_FOREST_CONFIGS
              return RFRActor.remote(configs)
          elif model_name == "decision_tree":
              configs = DECISION_TREE_CONFIGS
              return DTActor.remote(configs)
          else:
              configs = XGBOOST_CONFIGS
              return XGBoostActor.remote(configs)
  \<close>
  The three actor classes and the three configuration constants come from
  \<open>model_helper_utils\<close>. An actor handle records the class it was created from and
  the configuration passed to the constructor; the constants are a parameter.
\<close>

datatype actor_class = RFRActor | DTActor | XGBoostActor

record 'c ActorHandle =
  actor_class :: actor_class
  configs :: 'c

record 'c model_configs =
  RANDOM_FOREST_CONFIGS :: 'c
  DECISION_TREE_CONFIGS :: 'c
  XGBOOST_CONFIGS :: 'c

definition remote :: "actor_class \<Rightarrow> 'c \<Rightarrow> 'c ActorHandle" where
  "remote cls c = \<lparr>actor_class = cls, configs = c\<rparr>"

definition MODEL_TYPES :: "string list" where
  "MODEL_TYPES = [''random_forest'', ''decision_tree'', ''xgboost'']"

definition create_model :: "'c model_configs \<Rightarrow> string \<Rightarrow> error + 'c ActorHandle" where
  "create_model consts model_name =
     (if model_name \<notin> set MODEL_TYPES
      then Inl (Exception (model_name @ '' not supported''))
      else if model_name = ''random_forest''
      then Inr (remote RFRActor (RANDOM_FOREST_CONFIGS consts))
      else if model_name = ''decision_tree''
      then Inr (remote DTActor (DECISION_TREE_CONFIGS consts))
      else Inr (remote XGBoostActor (XGBOOST_CONFIGS consts)))"

text \<open>
  \<^verbatim>\<open>
  class Supervisor:
      def __init__(self):
          self.worker_models = [ModelFactory.create_model(name)
                                for name in ModelFactory.MODEL_TYPES]
      def work(self):
          results = [worker_model.train_and_evaluate_model.remote()
                     for worker_model in self.worker_models]
          return ray.get(results)
  \<close>
  \<open>train_and_evaluate_model\<close> is a method of the worker classes of
  \<open>model_helper_utils\<close>; here it is a parameter, a function from the worker to the
  value \<open>ray.get\<close> obtains for it or the exception it raises. \<open>ray.get\<close> on a list
  returns the values in the order of the list and raises the first failure.
\<close>

record 'c Supervisor =
  worker_models :: "'c ActorHandle list"

definition Supervisor_init :: "'c model_configs \<Rightarrow> error + 'c Supervisor" where
  "Supervisor_init consts =
     (case comprehension (create_model consts) MODEL_TYPES of
        Inl e \<Rightarrow> Inl e
      | Inr workers \<Rightarrow> Inr \<lparr>worker_models = workers\<rparr>)"

definition work :: "('c ActorHandle \<Rightarrow> error + 'r) \<Rightarrow> 'c Supervisor \<Rightarrow> error + 'r list" where
  "work train_and_evaluate_model self =
     comprehension train_and_evaluate_model (worker_models self)"

text \<open>
  \<^verbatim>\<open>
  supervisor = Supervisor.remote()
  results = supervisor.work.remote()
  values = ray.get(results)
  \<close>
\<close>

definition supervisor_values ::
  "'c model_configs \<Rightarrow> ('c ActorHandle \<Rightarrow> error + 'r) \<Rightarrow> error + 'r list" where
  "supervisor_values consts train_and_evaluate_model =
     (case Supervisor_init consts of
        Inl e \<Rightarrow> Inl e
      | Inr supervisor \<Rightarrow> work train_and_evaluate_model supervisor)"

section \<open>Result records\<close>

text \<open>
  A result is a \<open>dict\<close> from strings to strings and numbers. A number is an
  \<open>int\<close> or a finite \<open>float\<close>, which Python compares by value; \<open>nan\<close>
  is not a value of the model.
\<close>

datatype val = is_Str: Str (str_of: string) | is_Num: Num (num_of: rat)

type_synonym result = "(string, val) dict"

text \<open>
  Modelled from the spec: \<open>train_and_evaluate_model\<close> of \<open>model_helper_utils\<close> is
  not among the sources. The spec describes what the supervisor collects as
  "a results list of {name, mse, time, state} records"; the model builds such a record
  from the four values, which the training determines.
\<close>

definition train_and_evaluate_model :: "string \<Rightarrow> rat \<Rightarrow> rat \<Rightarrow> string \<Rightarrow> result" where
  "train_and_evaluate_model name mse time state =
     [(''name'', Str name), (''mse'', Num mse), (''time'', Num time), (''state'', Str state)]"

definition has_key :: "('k, 'v) dict \<Rightarrow> 'k \<Rightarrow> bool" where
  "has_key d k = (map_of d k \<noteq> None)"

subsection \<open>Waiting for the workers\<close>

text \<open>
  \<^verbatim>\<open>
  states = []
  while True:
      for value in values:
          states.append(value["state"])
      result = all('DONE' == e for e in states)
      if result:
          break
  \<close>
  \<open>append_states\<close> is the inner \<open>for\<close> loop; \<open>wait_for_done\<close> is the \<open>while\<close>
  loop from a given \<open>states\<close>, returning \<open>states\<close> at the \<open>break\<close>;
  \<open>None\<close> is a loop that never leaves.
\<close>

fun append_states :: "result list \<Rightarrow> val list \<Rightarrow> error + val list" where
  "append_states [] states = Inr states"
| "append_states (value # values) states =
     (case getitem value ''state'' of
        Inl e \<Rightarrow> Inl e
      | Inr s \<Rightarrow> append_states values (states @ [s]))"

partial_function (option) wait_for_done ::
  "result list \<Rightarrow> val list \<Rightarrow> (error + val list) option"
where
  "wait_for_done values states =
     (case append_states values states of
        Inl e \<Rightarrow> Some (Inl e)
      | Inr states' \<Rightarrow>
          if list_all (\<lambda>e. Str ''DONE'' = e) states' then Some (Inr states')
          else wait_for_done values states')"

declare wait_for_done.simps [code]

subsection \<open>Sorting by mean squared error\<close>

text \<open>
  \<^verbatim>\<open>
  sorted_by_mse = sorted(values, key=itemgetter('mse'))
  \<close>
  \<open>sorted\<close> computes the key of every element first, then sorts the elements by
  their keys with \<open><\<close>, stably. Numbers compare by value and strings
  lexicographically; \<open><\<close> between a number and a string raises \<open>TypeError\<close>, and a
  sort of keys of both kinds has to compare two of them.
\<close>

definition itemgetter :: "string \<Rightarrow> result \<Rightarrow> error + val" where
  "itemgetter k d = getitem d k"

definition sorted_py :: "('a \<Rightarrow> error + val) \<Rightarrow> 'a list \<Rightarrow> error + 'a list" where
  "sorted_py key xs =
     (case comprehension key xs of
        Inl e \<Rightarrow> Inl e
      | Inr ks \<Rightarrow>
          if list_all is_Num ks
          then Inr (map snd (sort_key fst (zip (map num_of ks) xs)))
          else if list_all is_Str ks
          then Inr (map snd (sort_key fst (zip (map str_of ks) xs)))
          else Inl TypeError)"

definition sorted_by_mse :: "result list \<Rightarrow> error + result list" where
  "sorted_by_mse values = sorted_py (itemgetter ''mse'') values"

section \<open>Properties of true division\<close>

lemma round_half_even_of_int: "round_half_even (of_int n) = n"
  by (simp add: round_half_even_def)

lemma round_half_even_le: "x \<le> of_int g \<Longrightarrow> round_half_even x \<le> g"
  unfolding round_half_even_def Let_def
  by (auto simp: floor_le_iff le_floor_iff)

lemma round_half_even_nonneg: "0 \<le> x \<Longrightarrow> 0 \<le> round_half_even x"
  unfolding round_half_even_def Let_def
  by (auto simp: floor_le_iff le_floor_iff) 

lemma ilog2_le: assumes "0 < q" shows "2 powi (ilog2 q) \<le> q"
proof -
  obtain a b where ab: "quotient_of q = (a, b)" by (cases "quotient_of q")
  have b: "0 < b" using quotient_of_denom_pos[OF ab] .
  have q: "q = of_int a / of_int b" using quotient_of_div[OF ab] .
  have a: "0 < a" using assms b q by (simp add: zero_less_divide_iff)
  define la where "la = bitlen a"
  define lb where "lb = bitlen b"
  have la: "1 \<le> la" using a bitlen_eq_zero_iff[of a] bitlen_nonneg[of a] by (simp add: la_def)
  have lb: "1 \<le> lb" using b bitlen_eq_zero_iff[of b] bitlen_nonneg[of b] by (simp add: lb_def)
  have A: "(2::int) ^ nat (la - 1) \<le> a" using bitlen_bounds[OF a] by (simp add: la_def)
  have B: "b \<le> 2 ^ nat lb" using bitlen_bounds[OF b] by (simp add: lb_def)
  have "(2::rat) powi (la - lb - 1) = 2 powi (la - 1) / 2 powi lb"
    using power_int_diff[of "2::rat" "la - 1" lb] by (simp add: algebra_simps)
  also have "\<dots> = of_int (2 ^ nat (la - 1)) / of_int (2 ^ nat lb)"
    using la lb by (simp add: power_int_def)
  also have "\<dots> \<le> of_int a / of_int b"
    using A B a b by (intro frac_le) (simp_all del: of_int_power)
  finally have low: "(2::rat) powi (la - lb - 1) \<le> q" using q by simp
  show ?thesis
    using low by (simp add: ilog2_def ab Let_def la_def lb_def)
qed

lemma ilog2_gt: assumes "0 < q" shows "q < 2 powi (ilog2 q + 1)"
proof -
  obtain a b where ab: "quotient_of q = (a, b)" by (cases "quotient_of q")
  have b: "0 < b" using quotient_of_denom_pos[OF ab] .
  have q: "q = of_int a / of_int b" using quotient_of_div[OF ab] .
  have a: "0 < a" using assms b q by (simp add: zero_less_divide_iff)
  define la where "la = bitlen a"
  define lb where "lb = bitlen b"
  have la: "1 \<le> la" using a bitlen_eq_zero_iff[of a] bitlen_nonneg[of a] by (simp add: la_def)
  have lb: "1 \<le> lb" using b bitlen_eq_zero_iff[of b] bitlen_nonneg[of b] by (simp add: lb_def)
  have A: "a < 2 ^ nat la" using bitlen_bounds[OF a] by (simp add: la_def)
  have B: "(2::int) ^ nat (lb - 1) \<le> b" using bitlen_bounds[OF b] by (simp add: lb_def)
  have "of_int a / of_int b < (of_int (2 ^ nat la) :: rat) / of_int (2 ^ nat (lb - 1))"
    using A B a b by (intro frac_less) (simp_all del: of_int_power)
  also have "\<dots> = 2 powi la / 2 powi (lb - 1)"
    using la lb by (simp add: power_int_def)
  also have "\<dots> = 2 powi (la - lb + 1)"
    using power_int_diff[of "2::rat" la "lb - 1"] by (simp add: algebra_simps)
  finally have up: "q < 2 powi (la - lb + 1)" using q by simp
  show ?thesis
    using up by (auto simp: ilog2_def ab Let_def la_def lb_def not_le)
qed

lemma float_ulp_pos: "0 < float_ulp q"
  by (simp add: float_ulp_def)

lemma float_round_nonneg: "0 \<le> q \<Longrightarrow> 0 \<le> float_round q"
  using float_ulp_pos[of q] by (simp add: float_round_def round_half_even_nonneg)

lemma float_round_le_pow2:
  assumes "0 < q" "q \<le> 2 powi j" "- 1022 \<le> j"
  shows "float_round q \<le> 2 powi j"
proof -
  define e where "e = max (ilog2 \<bar>q\<bar>) (- 1022)"
  have u: "float_ulp q = 2 powi (e - 52)" by (simp add: float_ulp_def e_def)
  have "(2::rat) powi (ilog2 q) \<le> 2 powi j" using ilog2_le[OF assms(1)] assms(2) by simp
  then have "ilog2 q \<le> j"
    using power_int_strict_increasing[of j "ilog2 q" "2::rat"] by (cases "ilog2 q \<le> j") simp_all
  then have ej: "e \<le> j" using assms by (simp add: e_def)
  define k where "k = j - e + 52"
  define m where "m = e - 52"
  have k: "0 \<le> k" and km: "k + m = j" using ej by (simp_all add: k_def m_def)
  define g :: int where "g = 2 ^ nat k"
  have g: "of_int g * float_ulp q = (2::rat) powi j"
  proof -
    have "(of_int g :: rat) = 2 powi k"
      using k by (simp add: g_def power_int_nonneg_exp)
    moreover have "float_ulp q = 2 powi m" using u by (simp add: m_def)
    moreover have "(2::rat) powi k * 2 powi m = 2 powi (k + m)"
      by (simp add: power_int_add)
    ultimately show ?thesis using km by simp
  qed
  have "q / float_ulp q \<le> of_int g"
    using assms(2) float_ulp_pos[of q] g by (simp add: pos_divide_le_eq)
  then have "round_half_even (q / float_ulp q) \<le> g" by (rule round_half_even_le)
  then have "of_int (round_half_even (q / float_ulp q)) * float_ulp q \<le> of_int g * float_ulp q"
    using float_ulp_pos[of q] by (simp del: of_int_power)
  then show ?thesis using assms(1) g by (simp add: float_round_def)
qed

lemma float_round_1: "float_round 1 = 1" by code_simp

lemma truediv_bounded:
  assumes "0 < b" "0 \<le> a" "a \<le> 2 ^ j * b" "j \<le> 1023"
  shows "\<exists>r. truediv a b = Inr r \<and> 0 \<le> r \<and> r \<le> 2 ^ j"
proof -
  define q :: rat where "q = of_int a / of_int b"
  have q0: "0 \<le> q" using assms by (simp add: q_def)
  have "of_int a \<le> (2::rat) ^ j * of_int b" using assms(3) by (metis of_int_le_iff of_int_mult of_int_numeral of_int_power)
  then have qj: "q \<le> 2 powi (int j)" using assms(1) by (simp add: q_def pos_divide_le_eq)
  have r0: "0 \<le> float_round q" using q0 by (rule float_round_nonneg)
  have rj: "float_round q \<le> 2 ^ j"
  proof (cases "q = 0")
    case True then show ?thesis by (simp add: float_round_def)
  next
    case False
    then have "0 < q" using q0 by simp
    from float_round_le_pow2[OF this qj] show ?thesis by simp
  qed
  have "(2::rat) ^ j < 2 ^ 1024" using assms(4) by (intro power_strict_increasing) simp_all
  then have "\<not> 2 ^ 1024 \<le> \<bar>float_round q\<bar>" using r0 rj by linarith
  then show ?thesis using assms(1) r0 rj unfolding truediv_def q_def Let_def by auto
qed

lemma truediv_self: "a \<noteq> 0 \<Longrightarrow> truediv a a = Inr 1"
  by (simp add: truediv_def float_round_1)

section \<open>Properties of the progress actor\<close>

lemma deliver_Nil: "deliver a [] = a"
  by (simp add: deliver_def)

lemma deliver_Cons: "deliver a ((t, n) # msgs) = deliver (report_progress a t n) msgs"
  by (simp add: deliver_def)

lemma deliver_append: "deliver a (xs @ ys) = deliver (deliver a xs) ys"
  by (simp add: deliver_def)

lemma deliver_snoc: "deliver a (msgs @ [(t, n)]) = report_progress (deliver a msgs) t n"
  by (simp add: deliver_def)

lemma total_report_progress: "total_num_samples (report_progress a t n) = total_num_samples a"
  by (simp add: report_progress_def)

lemma total_deliver: "total_num_samples (deliver a msgs) = total_num_samples a"
  by (induction msgs rule: rev_induct) (auto simp: deliver_Nil deliver_snoc total_report_progress)

lemma counts_report_progress:
  "map_of (num_samples_completed_per_task (report_progress a t n)) =
   (map_of (num_samples_completed_per_task a))(t \<mapsto> n)"
  by (simp add: report_progress_def dict_set_def update_conv')

lemma distinct_report_progress:
  "distinct (map fst (num_samples_completed_per_task a)) \<Longrightarrow>
   distinct (map fst (num_samples_completed_per_task (report_progress a t n)))"
  by (simp add: report_progress_def dict_set_def distinct_update)

lemma distinct_deliver:
  "distinct (map fst (num_samples_completed_per_task a)) \<Longrightarrow>
   distinct (map fst (num_samples_completed_per_task (deliver a msgs)))"
  by (induction msgs rule: rev_induct) (auto simp: deliver_Nil deliver_snoc distinct_report_progress)

lemma counts_deliver:
  "map_of (num_samples_completed_per_task (deliver a msgs)) =
   map_of (num_samples_completed_per_task a) ++ map_of (rev msgs)"
proof (induction msgs rule: rev_induct)
  case Nil
  show ?case by (simp add: deliver_Nil)
next
  case (snoc x xs)
  obtain t n where x: "x = (t, n)" by (cases x)
  show ?case
    unfolding x deliver_snoc counts_report_progress snoc.IH
    by (rule ext) (simp add: map_add_def)
qed

lemma counts_deliver_init:
  "map_of (num_samples_completed_per_task (deliver (ProgressPIActor_init total') msgs)) t =
   last_report msgs t"
  by (simp add: counts_deliver last_report_def ProgressPIActor_init_def)

lemma sum_list_dict_values:
  "distinct (map fst d) \<Longrightarrow>
   sum_list (dict_values d) = (\<Sum>k \<in> dom (map_of d). the (map_of d k))"
proof (induction d)
  case Nil
  show ?case by (simp add: dict_values_def)
next
  case (Cons p d)
  obtain k v where p: "p = (k, v)" by (cases p)
  from Cons.prems have k: "k \<notin> dom (map_of d)" and d: "distinct (map fst d)"
    by (auto simp: p dom_map_of_conv_image_fst)
  have fin: "finite (dom (map_of d))" by (rule finite_dom_map_of)
  have "(\<Sum>k' \<in> dom (map_of (p # d)). the (map_of (p # d) k')) =
        (\<Sum>k' \<in> insert k (dom (map_of d)). the (map_of (p # d) k'))"
    by (simp add: p)
  also have "\<dots> = v + (\<Sum>k' \<in> dom (map_of d). the (map_of (p # d) k'))"
    using k fin by (simp add: p)
  also have "(\<Sum>k' \<in> dom (map_of d). the (map_of (p # d) k')) =
             (\<Sum>k' \<in> dom (map_of d). the (map_of d k'))"
    using k by (intro sum.cong) (auto simp: p)
  finally show ?case using Cons.IH[OF d] by (simp add: dict_values_def p)
qed

lemma fst_get_progress:
  "fst (get_progress a) =
   truediv (sum_list (dict_values (num_samples_completed_per_task a))) (total_num_samples a)"
  by (simp add: get_progress_def)

lemma snd_get_progress: "snd (get_progress a) = a"
  by (simp add: get_progress_def)

lemma filter_update_other:
  "filter (\<lambda>p. fst p \<noteq> k) (AList.update k v d) = filter (\<lambda>p. fst p \<noteq> k) d"
  by (induction d) auto

lemma get_progress_bounded:
  assumes "0 < total_num_samples a"
    and "0 \<le> sum_list (dict_values (num_samples_completed_per_task a))"
    and "sum_list (dict_values (num_samples_completed_per_task a)) \<le> total_num_samples a"
  shows "in_unit_interval (fst (get_progress a))"
proof -
  from truediv_bounded[of "total_num_samples a" _ 0] assms
  obtain r where
    "truediv (sum_list (dict_values (num_samples_completed_per_task a))) (total_num_samples a) = Inr r"
    "0 \<le> r" "r \<le> 1" by auto
  then show ?thesis by (simp add: fst_get_progress in_unit_interval_def)
qed

lemma dict_bounds:
  assumes "distinct (map fst d)" "fst ` set d \<subseteq> {0..<k}"
    and "\<forall>v \<in> snd ` set d. 0 \<le> v \<and> v \<le> m" "0 \<le> (m::int)" "0 \<le> k"
  shows "0 \<le> sum_list (dict_values d) \<and> sum_list (dict_values d) \<le> (k::int) * m"
proof -
  have nonneg: "0 \<le> sum_list (dict_values d)"
    using assms(3) by (auto simp: dict_values_def intro!: sum_list_nonneg)
  have "sum_list (dict_values d) \<le> (\<Sum>p\<leftarrow>d. m)"
    unfolding dict_values_def using assms(3) by (intro sum_list_mono) auto
  also have "\<dots> = int (length d) * m" by (simp add: sum_list_triv)
  also have "length d = card (fst ` set d)"
    using assms(1) by (metis distinct_card length_map list.set_map)
  also have "int (card (fst ` set d)) \<le> k"
  proof -
    have "card (fst ` set d) \<le> card {0..<k}" using assms(2) by (intro card_mono) auto
    then show ?thesis using assms(5) by simp
  qed
  finally show ?thesis using nonneg assms(4) by (simp add: mult_right_mono)
qed

lemma deliver_bounds:
  assumes "\<forall>(t, n) \<in> set msgs. 0 \<le> t \<and> t < k \<and> 0 \<le> n \<and> n \<le> m"
  shows "fst ` set (num_samples_completed_per_task (deliver (ProgressPIActor_init N) msgs)) \<subseteq> {0..<k}
       \<and> (\<forall>v \<in> snd ` set (num_samples_completed_per_task (deliver (ProgressPIActor_init N) msgs)).
             0 \<le> v \<and> v \<le> m)"
proof -
  let ?d = "num_samples_completed_per_task (deliver (ProgressPIActor_init N) msgs)"
  have dist: "distinct (map fst ?d)"
    by (rule distinct_deliver) (simp add: ProgressPIActor_init_def)
  have *: "(t, v) \<in> set ?d \<Longrightarrow> (t, v) \<in> set msgs" for t v
  proof -
    assume "(t, v) \<in> set ?d"
    then have "map_of ?d t = Some v" using dist by simp
    then have "map_of (rev msgs) t = Some v"
      by (simp add: counts_deliver_init last_report_def)
    then show ?thesis by (auto dest: map_of_SomeD)
  qed
  show ?thesis using assms * by fastforce
qed

text \<open>
  In the driver the actor is constructed with
  \<open>NUM_SAMPLING_TASKS * NUM_SAMPLES_PER_TASK\<close>, task identifiers come from
  \<open>range(NUM_SAMPLING_TASKS)\<close> and a task reports counts up to
  \<open>NUM_SAMPLES_PER_TASK\<close>: whatever has been delivered, the progress is in the unit
  interval.
\<close>

lemma driver_progress_bounded:
  assumes "0 < k" "0 < m"
    and "\<forall>(t, n) \<in> set msgs. 0 \<le> t \<and> t < k \<and> 0 \<le> n \<and> n \<le> m"
  shows "in_unit_interval (fst (get_progress (deliver (ProgressPIActor_init (k * m)) msgs)))"
proof -
  let ?s = "deliver (ProgressPIActor_init (k * m)) msgs"
  let ?d = "num_samples_completed_per_task ?s"
  have dist: "distinct (map fst ?d)"
    by (rule distinct_deliver) (simp add: ProgressPIActor_init_def)
  note B = deliver_bounds[OF assms(3), of "k * m"]
  have "0 \<le> m" "0 \<le> k" using assms(1,2) by simp_all
  then have "0 \<le> sum_list (dict_values ?d) \<and> sum_list (dict_values ?d) \<le> k * m"
    by (rule dict_bounds[OF dist conjunct1[OF B] conjunct2[OF B]])
  moreover have "total_num_samples ?s = k * m"
    by (simp add: total_deliver ProgressPIActor_init_def)
  moreover have "0 < k * m" using assms by simp
  ultimately show ?thesis by (intro get_progress_bounded) simp_all
qed

text \<open>
  C2, as the code has it. \<open>report_progress\<close> stores whatever count it is given and
  \<open>get_progress\<close> divides by whatever total the actor was constructed with, so the
  ratio is in \<open>[0, 1]\<close> only when the recorded counts are: for an actor constructed
  with a positive \<open>total_num_samples\<close>, in every state reached by a finite sequence of
  \<open>report_progress\<close> calls in which the recorded counts sum to a value between zero
  and \<open>total_num_samples\<close>, \<open>get_progress\<close> returns a value in \<open>[0, 1]\<close>.
\<close>

theorem progress_in_unit_interval:
  assumes "0 < N"
    and "0 \<le> sum_list (dict_values
            (num_samples_completed_per_task (deliver (ProgressPIActor_init N) msgs)))"
    and "sum_list (dict_values
            (num_samples_completed_per_task (deliver (ProgressPIActor_init N) msgs))) \<le> N"
  shows "in_unit_interval (fst (get_progress (deliver (ProgressPIActor_init N) msgs)))"
  using assms
  by (intro get_progress_bounded) (simp_all add: total_deliver ProgressPIActor_init_def)

theorem progress_in_unit_interval_witness:
  "(0::int) < 10
   \<and> 0 \<le> sum_list (dict_values
        (num_samples_completed_per_task (deliver (ProgressPIActor_init 10) [(0, 3), (1, 4), (0, 5)])))
   \<and> sum_list (dict_values
        (num_samples_completed_per_task (deliver (ProgressPIActor_init 10) [(0, 3), (1, 4), (0, 5)])))
       \<le> 10
   \<and> in_unit_interval
        (fst (get_progress (deliver (ProgressPIActor_init 10) [(0, 3), (1, 4), (0, 5)])))"
proof -
  have s: "sum_list (dict_values
        (num_samples_completed_per_task (deliver (ProgressPIActor_init 10) [(0, 3), (1, 4), (0, 5)])))
      = 9"
    by (simp add: deliver_def report_progress_def dict_set_def dict_values_def
        ProgressPIActor_init_def)
  show ?thesis
    using progress_in_unit_interval [of 10 "[(0, 3), (1, 4), (0, 5)]"] by (simp add: s)
qed

text \<open>
  C2, as stated, fails: an actor constructed with \<open>total_num_samples = 2\<close> that has
  received \<open>report_progress(0, 5)\<close> returns \<open>2.5\<close>.
\<close>

theorem progress_above_one:
  "\<not> in_unit_interval (fst (get_progress (deliver (ProgressPIActor_init 2) [(0, 5)])))"
  by code_simp

text \<open>
  C3: the actor keeps a mapping from task identifier to completed-sample count.
  \<open>report_progress(task_id, n)\<close> sets the entry of \<open>task_id\<close> to \<open>n\<close>,
  replacing a count recorded before, and in every state the actor reaches
  \<open>get_progress\<close> returns the sum of the recorded counts over all task identifiers,
  divided (Python's \<open>/\<close>) by the \<open>total_num_samples\<close> of the construction.
\<close>

theorem report_progress_sets_get_progress_sums:
  "map_of (num_samples_completed_per_task (report_progress a task_id n)) =
     (map_of (num_samples_completed_per_task a))(task_id \<mapsto> n)
   \<and> (let s = deliver (ProgressPIActor_init N) msgs;
           counts = map_of (num_samples_completed_per_task s)
       in fst (get_progress s) = truediv (\<Sum>t \<in> dom counts. the (counts t)) N)"
proof -
  let ?s = "deliver (ProgressPIActor_init N) msgs"
  have "distinct (map fst (num_samples_completed_per_task ?s))"
    by (rule distinct_deliver) (simp add: ProgressPIActor_init_def)
  then have "sum_list (dict_values (num_samples_completed_per_task ?s)) =
     (\<Sum>t \<in> dom (map_of (num_samples_completed_per_task ?s)).
        the (map_of (num_samples_completed_per_task ?s) t))"
    by (rule sum_list_dict_values)
  moreover have "total_num_samples ?s = N"
    by (simp add: total_deliver ProgressPIActor_init_def)
  ultimately show ?thesis
    by (simp add: counts_report_progress fst_get_progress Let_def)
qed

text \<open>
  C8: \<open>get_progress\<close> leaves the actor's state as it was. \<open>report_progress(task_id, n)\<close>
  leaves \<open>total_num_samples\<close> as it was, and the recorded count of every other task
  identifier: each other key maps to what it mapped to, and the entries of the other
  keys are the same, in the same order.
\<close>

theorem progress_actor_frame:
  "snd (get_progress a) = a
   \<and> total_num_samples (report_progress a task_id n) = total_num_samples a
   \<and> (\<forall>t. t \<noteq> task_id \<longrightarrow>
         map_of (num_samples_completed_per_task (report_progress a task_id n)) t =
         map_of (num_samples_completed_per_task a) t)
   \<and> filter (\<lambda>p. fst p \<noteq> task_id)
        (num_samples_completed_per_task (report_progress a task_id n)) =
     filter (\<lambda>p. fst p \<noteq> task_id) (num_samples_completed_per_task a)"
  by (simp add: snd_get_progress total_report_progress counts_report_progress)
     (simp add: report_progress_def dict_set_def filter_update_other)

theorem progress_actor_frame_witness:
  "(1::int) \<noteq> 0
   \<and> map_of (num_samples_completed_per_task
        (report_progress (deliver (ProgressPIActor_init 10) [(0, 3), (1, 4)]) 0 7)) 1 = Some 4
   \<and> num_samples_completed_per_task
        (report_progress (deliver (ProgressPIActor_init 10) [(0, 3), (1, 4)]) 0 7) =
      [(0, 7), (1, 4)]"
  using progress_actor_frame [of "deliver (ProgressPIActor_init 10) [(0, 3), (1, 4)]" 0 7]
  by (simp add: deliver_def report_progress_def dict_set_def ProgressPIActor_init_def)

lemma get_progress_complete:
  assumes "0 < k" "0 < m"
    and "\<forall>(t, n) \<in> set msgs. 0 \<le> t \<and> t < k"
    and "\<forall>t. 0 \<le> t \<and> t < k \<longrightarrow> last_report msgs t = Some m"
  shows "fst (get_progress (deliver (ProgressPIActor_init (k * m)) msgs)) = Inr 1"
proof -
  let ?s = "deliver (ProgressPIActor_init (k * m)) msgs"
  let ?d = "num_samples_completed_per_task ?s"
  have dist: "distinct (map fst ?d)"
    by (rule distinct_deliver) (simp add: ProgressPIActor_init_def)
  have cnt: "map_of ?d t = last_report msgs t" for t
    by (rule counts_deliver_init)
  have dom: "dom (map_of ?d) = {0..<k}"
  proof
    show "dom (map_of ?d) \<subseteq> {0..<k}"
    proof
      fix t assume "t \<in> dom (map_of ?d)"
      then obtain v where "map_of (rev msgs) t = Some v"
        by (auto simp: cnt last_report_def)
      then have "(t, v) \<in> set msgs" by (auto dest: map_of_SomeD)
      then show "t \<in> {0..<k}" using assms(3) by auto
    qed
    show "{0..<k} \<subseteq> dom (map_of ?d)"
      using assms(4) by (auto simp: cnt)
  qed
  have "sum_list (dict_values ?d) = (\<Sum>t \<in> {0..<k}. the (map_of ?d t))"
    using sum_list_dict_values[OF dist] dom by simp
  also have "\<dots> = (\<Sum>t \<in> {0..<k}. m)"
    using assms(4) by (intro sum.cong) (auto simp: cnt)
  also have "\<dots> = k * m" using assms(1) by simp
  finally have total: "sum_list (dict_values ?d) = k * m" .
  have N: "total_num_samples ?s = k * m"
    by (simp add: total_deliver ProgressPIActor_init_def)
  have "k * m \<noteq> 0" using assms by simp
  then show ?thesis
    by (simp add: fst_get_progress total N truediv_self)
qed

text \<open>
  C10: the driver constructs the actor with
  \<open>NUM_SAMPLING_TASKS * NUM_SAMPLES_PER_TASK\<close> and the tasks are numbered by
  \<open>range(NUM_SAMPLING_TASKS)\<close>. Once the last report delivered for every task is its
  final one, \<open>NUM_SAMPLES_PER_TASK\<close>, whatever the order in which the reports of
  different tasks arrived, \<open>get_progress\<close> returns exactly \<open>1\<close>, and the polling loop
  leaves at its next test of \<open>progress == 1\<close>.
\<close>

theorem final_reports_give_progress_one:
  assumes "0 < k" "0 < m"
    and "\<forall>(t, n) \<in> set msgs. 0 \<le> t \<and> t < k"
    and "\<forall>t. 0 \<le> t \<and> t < k \<longrightarrow> last_report msgs t = Some m"
  shows "fst (get_progress (deliver (ProgressPIActor_init (k * m)) msgs)) = Inr 1
       \<and> polling_loop (deliver (ProgressPIActor_init (k * m)) msgs) arrivals printed =
           Some (Inr (printed @ [1]))"
proof -
  have one: "fst (get_progress (deliver (ProgressPIActor_init (k * m)) msgs)) = Inr 1"
    using assms by (rule get_progress_complete)
  show ?thesis using one by (subst polling_loop.simps) simp
qed

theorem final_reports_give_progress_one_witness:
  "(0::int) < 2 \<and> (0::int) < 5
   \<and> last_report [(0, 2), (1, 5), (0, 5)] 0 = Some 5
   \<and> last_report [(0, 2), (1, 5), (0, 5)] 1 = Some 5
   \<and> fst (get_progress (deliver (ProgressPIActor_init (2 * 5)) [(0, 2), (1, 5), (0, 5)])) = Inr 1
   \<and> polling_loop (deliver (ProgressPIActor_init (2 * 5)) [(0, 2), (1, 5), (0, 5)]) [] [] =
       Some (Inr [1])"
proof -
  have a: "\<forall>(t, n) \<in> set [(0::int, 2::int), (1, 5), (0, 5)]. 0 \<le> t \<and> t < 2" by simp
  have b: "\<forall>t::int. 0 \<le> t \<and> t < 2 \<longrightarrow> last_report [(0, 2), (1, 5), (0, 5)] t = Some 5"
    by (auto simp: last_report_def)
  show ?thesis
    using a b final_reports_give_progress_one [of 2 5 "[(0, 2), (1, 5), (0, 5)]" "[]" "[]"]
    by (simp add: last_report_def)
qed

section \<open>Properties of the sampling task\<close>

lemma for_loop_append:
  "for_loop body s (xs @ ys) =
     (case for_loop body s xs of Inl e \<Rightarrow> Inl e | Inr s' \<Rightarrow> for_loop body s' ys)"
  by (induction xs arbitrary: s) (auto split: sum.splits)

lemma sampling_step_result:
  "frequency_report \<noteq> 0 \<Longrightarrow>
   sampling_step hypot uniform task_id frequency_report (a, c) i =
     Inr (deliver a (step_reports task_id frequency_report [i]),
          c + int (length (filter (inside_circle hypot) [uniform i])))"
  by (simp add: sampling_step_def step_reports_def deliver_Cons deliver_Nil)

lemma step_reports_Cons:
  "step_reports t f (i # is) = step_reports t f [i] @ step_reports t f is"
  by (simp add: step_reports_def)

lemma sampling_loop:
  assumes "frequency_report \<noteq> 0"
  shows "for_loop (sampling_step hypot uniform task_id frequency_report) (a, c) is =
     Inr (deliver a (step_reports task_id frequency_report is),
          c + int (length (filter (inside_circle hypot) (map uniform is))))"
proof (induction "is" arbitrary: a c)
  case Nil
  show ?case by (simp add: step_reports_def deliver_Nil)
next
  case (Cons i "is")
  have "for_loop (sampling_step hypot uniform task_id frequency_report) (a, c) (i # is) =
        for_loop (sampling_step hypot uniform task_id frequency_report)
          (deliver a (step_reports task_id frequency_report [i]),
           c + int (length (filter (inside_circle hypot) [uniform i]))) is"
    by (simp only: for_loop.simps sampling_step_result[OF assms] sum.case)
  also have "\<dots> = Inr (deliver (deliver a (step_reports task_id frequency_report [i]))
                       (step_reports task_id frequency_report is),
          c + int (length (filter (inside_circle hypot) [uniform i]))
            + int (length (filter (inside_circle hypot) (map uniform is))))"
    by (rule Cons.IH)
  finally show ?case
    by (simp add: step_reports_Cons[of _ _ i "is"] deliver_append)
qed

lemma sampling_task_result:
  assumes "frequency_report \<noteq> 0"
  shows "sampling_task hypot uniform num_samples task_id a frequency_report =
     Inr (deliver a (task_reports num_samples task_id frequency_report),
          count_inside hypot uniform (nat num_samples))"
  by (simp add: sampling_task_def sampling_loop[OF assms] task_reports_def deliver_append
      deliver_Cons deliver_Nil count_inside_def)

lemma count_inside_bounds:
  "0 \<le> count_inside hypot uniform n \<and> count_inside hypot uniform n \<le> int n"
proof -
  have "length (filter (inside_circle hypot) (map uniform [0..<n])) \<le> length (map uniform [0..<n])"
    by (rule length_filter_le)
  then show ?thesis by (simp add: count_inside_def)
qed

lemma submit_task_result:
  "frequency_report \<noteq> 0 \<Longrightarrow>
   submit_task hypot uniform m frequency_report (b, rs) n =
      Inr (deliver b (task_reports m (int n) frequency_report),
           rs @ [count_inside hypot (uniform (int n)) (nat m)])"
  by (simp add: submit_task_def sampling_task_result)

lemma run_tasks_upto:
  assumes "frequency_report \<noteq> 0"
  shows "for_loop (submit_task hypot uniform m frequency_report) (a, []) [0..<n] =
     Inr (deliver a (all_reports m frequency_report n),
          map (\<lambda>i. count_inside hypot (uniform (int i)) (nat m)) [0..<n])"
proof (induction n)
  case 0
  show ?case by (simp add: all_reports_def deliver_Nil)
next
  case (Suc n)
  have "for_loop (submit_task hypot uniform m frequency_report) (a, []) [0..<Suc n] =
      (case for_loop (submit_task hypot uniform m frequency_report) (a, []) [0..<n] of
         Inl e \<Rightarrow> Inl e
       | Inr s' \<Rightarrow> for_loop (submit_task hypot uniform m frequency_report) s' [n])"
    by (simp add: for_loop_append)
  also have "\<dots> = submit_task hypot uniform m frequency_report
         (deliver a (all_reports m frequency_report n),
          map (\<lambda>i. count_inside hypot (uniform (int i)) (nat m)) [0..<n]) n"
    unfolding Suc.IH by (simp add: submit_task_result[OF assms] split: sum.splits)
  finally show ?case
    by (simp add: submit_task_result[OF assms] all_reports_def deliver_append)
qed

lemma run_tasks_result:
  assumes "frequency_report \<noteq> 0"
  shows "run_tasks hypot uniform k m frequency_report a =
     Inr (deliver a (all_reports m frequency_report (nat k)),
          map (\<lambda>i. count_inside hypot (uniform (int i)) (nat m)) [0..<nat k])"
  unfolding run_tasks_def by (rule run_tasks_upto[OF assms])

lemma sum_counts_bounds:
  "0 \<le> (\<Sum>i\<leftarrow>[0..<n]. count_inside hypot (uniform (int i)) j)
   \<and> (\<Sum>i\<leftarrow>[0..<n]. count_inside hypot (uniform (int i)) j) \<le> int n * int j"
proof (induction n)
  case 0
  show ?case by simp
next
  case (Suc n)
  then show ?case
    using count_inside_bounds[of hypot "uniform (int n)" j] by (simp add: algebra_simps)
qed

text \<open>
  C6: the estimate is \<open>(total_num_inside * 4) / TOTAL_NUM_SAMPLES\<close>, with
  \<open>total_num_inside\<close> the sum of the tasks' return values. With a positive number of
  tasks and of samples per task and a report frequency other than zero, a task returns
  the number of its \<open>num_samples\<close> sampled points with \<open>hypot(x, y) <= 1\<close>, whatever
  the state of the actor, so a value in \<open>[0, num_samples]\<close>; the tasks' results are
  these counts, in task order, and the estimate, the rounded quotient, lies in
  \<open>[0, 4]\<close>.
\<close>

theorem monte_carlo_pi:
  assumes "0 < k" "0 < m" "frequency_report \<noteq> 0"
  shows "(\<exists>a'. sampling_task hypot (uniform t) m t a frequency_report =
              Inr (a', count_inside hypot (uniform t) (nat m)))
    \<and> 0 \<le> count_inside hypot (uniform t) (nat m)
    \<and> count_inside hypot (uniform t) (nat m) \<le> m
    \<and> (\<exists>a' results p.
          run_tasks hypot uniform k m frequency_report (ProgressPIActor_init (k * m)) =
            Inr (a', results)
          \<and> results = map (\<lambda>i. count_inside hypot (uniform (int i)) (nat m)) [0..<nat k]
          \<and> estimate_pi results (k * m) = Inr p
          \<and> p = float_round (of_int (sum_list results * 4) / of_int (k * m))
          \<and> 0 \<le> p \<and> p \<le> 4)"
proof -
  let ?results = "map (\<lambda>i. count_inside hypot (uniform (int i)) (nat m)) [0..<nat k]"
  have task: "\<exists>a'. sampling_task hypot (uniform t) m t a frequency_report =
              Inr (a', count_inside hypot (uniform t) (nat m))"
    by (simp add: sampling_task_result[OF assms(3)])
  have cnt: "0 \<le> count_inside hypot (uniform t) (nat m)"
    "count_inside hypot (uniform t) (nat m) \<le> m"
    using count_inside_bounds[of hypot "uniform t" "nat m"] assms(2) by simp_all
  have sum: "0 \<le> sum_list ?results" "sum_list ?results \<le> k * m"
    using sum_counts_bounds[where n = "nat k" and j = "nat m" and hypot = hypot and uniform = uniform]
      assms(1,2) by simp_all
  have km: "0 < k * m" using assms by simp
  have "sum_list ?results * 4 \<le> 2 ^ 2 * (k * m)" using sum(2) by simp
  from truediv_bounded[OF km _ this] sum(1)
  obtain p where p: "truediv (sum_list ?results * 4) (k * m) = Inr p" "0 \<le> p" "p \<le> 4"
    by auto
  have "p = float_round (of_int (sum_list ?results * 4) / of_int (k * m))"
    using p(1) km by (simp add: truediv_def Let_def split: if_splits)
  with p have "estimate_pi ?results (k * m) = Inr p
      \<and> p = float_round (of_int (sum_list ?results * 4) / of_int (k * m)) \<and> 0 \<le> p \<and> p \<le> 4"
    by (simp add: estimate_pi_def)
  then show ?thesis
    using task cnt run_tasks_result[OF assms(3), of hypot uniform k m] by blast
qed

theorem monte_carlo_pi_witness:
  "(0::int) < 2 \<and> (0::int) < 5 \<and> (2::int) \<noteq> 0
   \<and> count_inside (\<lambda>x y. x * x + y * y) (\<lambda>i. if even i then (1 / 2, 1 / 2) else (1, 1)) (nat 5) = 3
   \<and> (\<exists>a'. sampling_task (\<lambda>x y. x * x + y * y)
          (\<lambda>i. if even i then (1 / 2, 1 / 2) else (1, 1)) 5 0 (ProgressPIActor_init 10) 2 =
        Inr (a', 3))
   \<and> (\<exists>a' p. run_tasks (\<lambda>x y. x * x + y * y)
          (\<lambda>t i. if even i then (1 / 2, 1 / 2) else (1, 1)) 2 5 2 (ProgressPIActor_init (2 * 5)) =
        Inr (a', [3, 3])
        \<and> estimate_pi [3, 3] (2 * 5) = Inr p \<and> 0 \<le> p \<and> p \<le> 4)"
proof -
  have c: "count_inside (\<lambda>x y. x * x + y * y)
      (\<lambda>i. if even i then (1 / 2, 1 / 2) else (1, 1)) 5 = 3"
    by code_simp
  have u: "[0..<2] = [0, Suc 0]" by code_simp
  show ?thesis
    using monte_carlo_pi [of 2 5 2 "\<lambda>x y. x * x + y * y"
        "\<lambda>t i. if even i then (1 / 2, 1 / 2) else (1, 1)" 0 "ProgressPIActor_init 10"]
    by (auto simp: c u)
qed

lemma last_report_append:
  "last_report (xs @ ys) t = (case last_report ys t of None \<Rightarrow> last_report xs t | Some n \<Rightarrow> Some n)"
  by (simp add: last_report_def map_add_def split: option.splits)

lemma fst_step_reports: "fst ` set (step_reports t f is) \<subseteq> {t}"
  by (auto simp: step_reports_def)

lemma last_report_task_reports:
  "last_report (task_reports m t f) t' = (if t' = t then Some m else None)"
proof -
  have "t' \<noteq> t \<Longrightarrow> last_report (step_reports t f is) t' = None" for "is"
    using fst_step_reports[of t f "is"]
    by (auto simp: last_report_def map_of_eq_None_iff)
  then show ?thesis
    by (auto simp: task_reports_def last_report_append last_report_def split: option.splits)
qed

lemma last_report_all_reports:
  "last_report (all_reports m f n) t = (if 0 \<le> t \<and> t < int n then Some m else None)"
proof (induction n)
  case 0
  show ?case by (simp add: all_reports_def last_report_def)
next
  case (Suc n)
  have "all_reports m f (Suc n) = all_reports m f n @ task_reports m (int n) f"
    by (simp add: all_reports_def)
  then show ?case
    by (auto simp: last_report_append last_report_task_reports Suc.IH split: option.splits)
qed

lemma all_reports_ids:
  "\<forall>(t, n) \<in> set (all_reports m f j). 0 \<le> t \<and> t < int j"
  by (auto simp: all_reports_def task_reports_def step_reports_def)

text \<open>
  Run one after the other from the freshly constructed actor, the tasks leave it with
  every final report delivered: the progress is exactly \<open>1\<close>.
\<close>

lemma run_tasks_progress_complete:
  assumes "0 < k" "0 < m" "frequency_report \<noteq> 0"
  shows "\<exists>a results.
     run_tasks hypot uniform k m frequency_report (ProgressPIActor_init (k * m)) = Inr (a, results)
     \<and> fst (get_progress a) = Inr 1"
proof -
  have ids: "\<forall>(t, n) \<in> set (all_reports m frequency_report (nat k)). 0 \<le> t \<and> t < k"
    using all_reports_ids[of m frequency_report "nat k"] assms(1) by simp
  have last: "\<forall>t. 0 \<le> t \<and> t < k \<longrightarrow>
      last_report (all_reports m frequency_report (nat k)) t = Some m"
    using assms(1) by (simp add: last_report_all_reports)
  from get_progress_complete[OF assms(1,2) ids last]
  show ?thesis by (simp add: run_tasks_result[OF assms(3)])
qed

section \<open>Properties of the model factory and the supervisor\<close>

lemma comprehension_Inr_iff:
  "comprehension f xs = Inr ys \<longleftrightarrow> map f xs = map Inr ys"
proof (induction xs arbitrary: ys)
  case Nil
  show ?case by auto
next
  case (Cons x xs)
  show ?case
  proof (cases "f x")
    case (Inl e)
    then show ?thesis by (cases ys) auto
  next
    case (Inr y)
    show ?thesis
    proof (cases "comprehension f xs")
      case (Inl e)
      with Cons.IH have "\<And>zs. map f xs \<noteq> map Inr zs" by auto
      with Inl Inr show ?thesis by (cases ys) auto
    next
      case r: (Inr zs)
      with Cons.IH[of zs] have "map f xs = map Inr zs" by simp
      with r Inr show ?thesis by (cases ys) auto
    qed
  qed
qed

lemma comprehension_map_Inr: "comprehension (\<lambda>x. Inr (g x)) xs = Inr (map g xs)"
  by (simp add: comprehension_Inr_iff)

lemma comprehension_length: "comprehension f xs = Inr ys \<Longrightarrow> length ys = length xs"
  by (metis comprehension_Inr_iff length_map)

lemma comprehension_nth:
  "comprehension f xs = Inr ys \<Longrightarrow> i < length xs \<Longrightarrow> f (xs ! i) = Inr (ys ! i)"
  by (metis comprehension_Inr_iff length_map nth_map)

lemma comprehension_total:
  assumes "\<forall>x \<in> set xs. \<exists>y. f x = Inr y"
  shows "\<exists>ys. comprehension f xs = Inr ys \<and> (\<forall>i < length xs. f (xs ! i) = Inr (ys ! i))"
proof -
  have "\<forall>x \<in> set xs. f x = Inr (projr (f x))" using assms by auto
  then have "map f xs = map Inr (map (\<lambda>x. projr (f x)) xs)" by simp
  then have "comprehension f xs = Inr (map (\<lambda>x. projr (f x)) xs)"
    by (simp only: comprehension_Inr_iff)
  then show ?thesis by (auto dest: comprehension_nth)
qed

text \<open>
  C1: \<open>create_model\<close> raises exactly when the name is not one of \<open>MODEL_TYPES\<close>,
  that is \<open>random_forest\<close>, \<open>decision_tree\<close> and \<open>xgboost\<close>; what it raises is
  an \<open>Exception\<close> whose message contains the name and \<open>not supported\<close>. For each
  of the three names it returns the handle of an actor of the matching class, created
  with that model's configuration.
\<close>

theorem create_model_supported:
  "((\<exists>msg. create_model consts model_name = Inl (Exception msg)
        \<and> sublist model_name msg \<and> sublist ''not supported'' msg)
      \<longleftrightarrow> model_name \<notin> set MODEL_TYPES)
   \<and> (isl (create_model consts model_name)
      \<longleftrightarrow> model_name \<notin> set [''random_forest'', ''decision_tree'', ''xgboost''])
   \<and> create_model consts ''random_forest'' = Inr (remote RFRActor (RANDOM_FOREST_CONFIGS consts))
   \<and> create_model consts ''decision_tree'' = Inr (remote DTActor (DECISION_TREE_CONFIGS consts))
   \<and> create_model consts ''xgboost'' = Inr (remote XGBoostActor (XGBOOST_CONFIGS consts))"
proof -
  have "sublist model_name (model_name @ '' not supported'')"
    by (rule prefix_imp_sublist) simp
  moreover have "sublist ''not supported'' ((model_name @ '' '') @ ''not supported'' @ [])"
    unfolding sublist_def by blast
  ultimately show ?thesis
    by (auto simp: create_model_def MODEL_TYPES_def)
qed

text \<open>
  C4: the supervisor's constructor creates one worker per name of \<open>MODEL_TYPES\<close>, in
  that order: three workers, for \<open>random_forest\<close>, \<open>decision_tree\<close> and
  \<open>xgboost\<close>. \<open>work\<close> returns a list exactly when every worker's
  \<open>train_and_evaluate_model\<close> returns, and the list holds the workers' results, one
  per worker, in the order of the workers.
\<close>

theorem supervisor_fans_out:
  "Supervisor_init consts =
     Inr \<lparr>worker_models =
            [remote RFRActor (RANDOM_FOREST_CONFIGS consts),
             remote DTActor (DECISION_TREE_CONFIGS consts),
             remote XGBoostActor (XGBOOST_CONFIGS consts)]\<rparr>
   \<and> (\<exists>s. Supervisor_init consts = Inr s
         \<and> map (create_model consts) MODEL_TYPES = map Inr (worker_models s)
         \<and> length (worker_models s) = 3
         \<and> (\<forall>results. work train s = Inr results
               \<longleftrightarrow> map train (worker_models s) = map Inr results))"
  by (simp add: Supervisor_init_def work_def comprehension_Inr_iff)
     (simp add: MODEL_TYPES_def create_model_def)

text \<open>
  C5: with \<open>train_and_evaluate_model\<close> as the spec describes it, the supervisor's
  \<open>work\<close> returns three records, and every one of them has the keys \<open>name\<close>,
  \<open>mse\<close>, \<open>time\<close> and \<open>state\<close>.
\<close>

theorem results_have_keys:
  "\<exists>values.
     supervisor_values consts
       (\<lambda>w. Inr (train_and_evaluate_model (name w) (mse w) (time w) (state w))) = Inr values
     \<and> length values = 3
     \<and> list_all (\<lambda>r. has_key r ''name'' \<and> has_key r ''mse'' \<and> has_key r ''time''
                      \<and> has_key r ''state'') values"
  by (simp add: supervisor_values_def Supervisor_init_def work_def MODEL_TYPES_def
      create_model_def train_and_evaluate_model_def has_key_def)

section \<open>Properties of the presentation of the results\<close>

lemma sorted_py_numeric:
  assumes ks: "comprehension key xs = Inr ks" and num: "list_all is_Num ks"
  shows "\<exists>out. sorted_py key xs = Inr out \<and> mset out = mset xs
    \<and> (\<forall>i. Suc i < length out \<longrightarrow>
          (\<exists>a b. key (out ! i) = Inr (Num a) \<and> key (out ! Suc i) = Inr (Num b) \<and> a \<le> b))"
proof -
  define zs where "zs = zip (map num_of ks) xs"
  define ss where "ss = sort_key fst zs"
  have len: "length ks = length xs" using ks by (rule comprehension_length)
  have out: "sorted_py key xs = Inr (map snd ss)"
    using ks num by (simp add: sorted_py_def ss_def zs_def)
  have "mset (map snd ss) = image_mset snd (mset ss)" by simp
  also have "mset ss = mset zs" by (simp add: ss_def)
  also have "image_mset snd (mset zs) = mset (map snd zs)" by simp
  also have "map snd zs = xs" using len by (simp add: zs_def)
  finally have perm: "mset (map snd ss) = mset xs" .
  have keyed: "key (snd p) = Inr (Num (fst p))" if "p \<in> set ss" for p
  proof -
    from that have "p \<in> set zs" by (simp add: ss_def)
    then obtain i where i: "i < length xs" and p: "p = (num_of (ks ! i), xs ! i)"
      using len by (auto simp: zs_def in_set_zip)
    have "is_Num (ks ! i)" using num i len by (simp add: list_all_length)
    then have "ks ! i = Num (num_of (ks ! i))" by simp
    with comprehension_nth[OF ks i] show ?thesis by (simp add: p)
  qed
  have srt: "sorted (map fst ss)" by (simp add: ss_def)
  have adj: "\<exists>a b. key (map snd ss ! i) = Inr (Num a) \<and> key (map snd ss ! Suc i) = Inr (Num b) \<and> a \<le> b"
    if "Suc i < length (map snd ss)" for i
  proof -
    from that have i: "i < length ss" and si: "Suc i < length ss" by simp_all
    have "fst (ss ! i) \<le> fst (ss ! Suc i)"
      using sorted_nth_mono[OF srt, of i "Suc i"] si by simp
    moreover have "key (snd (ss ! i)) = Inr (Num (fst (ss ! i)))"
      using i by (intro keyed) simp
    moreover have "key (snd (ss ! Suc i)) = Inr (Num (fst (ss ! Suc i)))"
      using si by (intro keyed) simp
    ultimately show ?thesis using i si by auto
  qed
  show ?thesis using out perm adj by blast
qed

text \<open>
  C7: for results whose \<open>mse\<close> is a number, \<open>sorted_by_mse\<close> is a permutation of
  \<open>values\<close> in which the \<open>mse\<close> of each record is at most the \<open>mse\<close> of the
  next.
\<close>

theorem sorted_by_mse_ascending:
  assumes "\<forall>r \<in> set values. \<exists>q. itemgetter ''mse'' r = Inr (Num q)"
  shows "\<exists>out. sorted_by_mse values = Inr out \<and> mset out = mset values
    \<and> (\<forall>i. Suc i < length out \<longrightarrow>
          (\<exists>a b. itemgetter ''mse'' (out ! i) = Inr (Num a)
                \<and> itemgetter ''mse'' (out ! Suc i) = Inr (Num b) \<and> a \<le> b))"
proof -
  from assms have "\<forall>r \<in> set values. \<exists>y. itemgetter ''mse'' r = Inr y" by blast
  from comprehension_total[OF this] obtain ks where
    ks: "comprehension (itemgetter ''mse'') values = Inr ks"
    and nth: "\<forall>i < length values. itemgetter ''mse'' (values ! i) = Inr (ks ! i)" by blast
  have len: "length ks = length values" using ks by (rule comprehension_length)
  have "list_all is_Num ks"
    unfolding list_all_length
  proof (intro allI impI)
    fix i assume "i < length ks"
    then have i: "i < length values" using len by simp
    then obtain q where "itemgetter ''mse'' (values ! i) = Inr (Num q)"
      using assms by (meson nth_mem)
    with nth i show "is_Num (ks ! i)" by simp
  qed
  from sorted_py_numeric[OF ks this] show ?thesis by (simp add: sorted_by_mse_def)
qed

theorem sorted_by_mse_ascending_witness:
  "sorted_by_mse
     [train_and_evaluate_model ''random_forest'' 3 12 ''DONE'',
      train_and_evaluate_model ''decision_tree'' 5 1 ''DONE'',
      train_and_evaluate_model ''xgboost'' 2 1 ''DONE''] =
   Inr [train_and_evaluate_model ''xgboost'' 2 1 ''DONE'',
        train_and_evaluate_model ''random_forest'' 3 12 ''DONE'',
        train_and_evaluate_model ''decision_tree'' 5 1 ''DONE'']
   \<and> (\<exists>out. sorted_by_mse
        [train_and_evaluate_model ''random_forest'' 3 12 ''DONE'',
         train_and_evaluate_model ''decision_tree'' 5 1 ''DONE'',
         train_and_evaluate_model ''xgboost'' 2 1 ''DONE''] = Inr out
      \<and> mset out =
        mset [train_and_evaluate_model ''random_forest'' 3 12 ''DONE'',
              train_and_evaluate_model ''decision_tree'' 5 1 ''DONE'',
              train_and_evaluate_model ''xgboost'' 2 1 ''DONE''])"
proof -
  have e: "sorted_by_mse
     [train_and_evaluate_model ''random_forest'' 3 12 ''DONE'',
      train_and_evaluate_model ''decision_tree'' 5 1 ''DONE'',
      train_and_evaluate_model ''xgboost'' 2 1 ''DONE''] =
   Inr [train_and_evaluate_model ''xgboost'' 2 1 ''DONE'',
        train_and_evaluate_model ''random_forest'' 3 12 ''DONE'',
        train_and_evaluate_model ''decision_tree'' 5 1 ''DONE'']"
    by code_simp
  have h: "\<forall>r \<in> set [train_and_evaluate_model ''random_forest'' 3 12 ''DONE'',
      train_and_evaluate_model ''decision_tree'' 5 1 ''DONE'',
      train_and_evaluate_model ''xgboost'' 2 1 ''DONE''].
      \<exists>q. itemgetter ''mse'' r = Inr (Num q)"
    by (simp add: itemgetter_def getitem_def train_and_evaluate_model_def)
  from sorted_by_mse_ascending [OF h] show ?thesis
    unfolding e by auto
qed

lemma append_states_acc:
  "append_states values states =
     (case append_states values [] of Inl e \<Rightarrow> Inl e | Inr new \<Rightarrow> Inr (states @ new))"
proof (induction "values" arbitrary: states)
  case Nil
  show ?case by simp
next
  case (Cons v vs)
  show ?case
  proof (cases "getitem v ''state''")
    case (Inl e)
    then show ?thesis by simp
  next
    case (Inr s)
    show ?thesis
      using Cons.IH[of "states @ [s]"] Cons.IH[of "[s]"] Inr
      by (simp split: sum.splits)
  qed
qed

lemma append_states_done:
  "\<forall>r \<in> set values. getitem r ''state'' = Inr (Str ''DONE'') \<Longrightarrow>
   append_states values [] = Inr (replicate (length values) (Str ''DONE''))"
proof (induction "values")
  case Nil
  show ?case by simp
next
  case (Cons v vs)
  then show ?case
    by (simp add: append_states_acc[of vs "[Str ''DONE'']"])
qed

lemma append_states_keys:
  "\<forall>r \<in> set values. has_key r ''state'' \<Longrightarrow>
   \<exists>new. append_states values [] = Inr new \<and> length new = length values
     \<and> (\<forall>i < length values. getitem (values ! i) ''state'' = Inr (new ! i))"
proof (induction "values")
  case Nil
  show ?case by simp
next
  case (Cons v vs)
  then obtain new where new: "append_states vs [] = Inr new" "length new = length vs"
    "\<forall>i < length vs. getitem (vs ! i) ''state'' = Inr (new ! i)" by auto
  from Cons.prems obtain s where s: "getitem v ''state'' = Inr s"
    by (auto simp: has_key_def getitem_def)
  have "append_states (v # vs) [] = Inr (s # new)"
    using s new(1) by (simp add: append_states_acc[of vs "[s]"])
  moreover have "\<forall>i < length (v # vs). getitem ((v # vs) ! i) ''state'' = Inr ((s # new) ! i)"
    using s new(3) by (auto simp: nth_Cons split: nat.splits)
  ultimately show ?case using new(2) by auto
qed

lemma wait_for_done_never:
  assumes new: "append_states values [] = Inr new"
    and bad: "\<not> list_all (\<lambda>e. Str ''DONE'' = e) new"
  shows "wait_for_done values states = None"
proof (rule ccontr)
  assume "wait_for_done values states \<noteq> None"
  then obtain y where y: "wait_for_done values states = Some y" by auto
  have "vs = values \<longrightarrow> False" if "wait_for_done vs st = Some y" for vs st
    using that
  proof (induction vs st y rule: wait_for_done.raw_induct[rotated 1, consumes 1])
    case (1 w vs st y)
    show ?case
    proof
      assume vs: "vs = values"
      have app: "append_states values st = Inr (st @ new)"
        using new by (simp add: append_states_acc[of "values" st])
      have "\<not> list_all (\<lambda>e. Str ''DONE'' = e) (st @ new)" using bad by simp
      with 1(2) app vs have "w values (st @ new) = Some y" by (simp split: if_splits)
      with 1(1) show False by blast
    qed
  qed
  with y show False by blast
qed

text \<open>
  A record without a \<open>state\<close> ends the loop with the \<open>KeyError\<close> of
  \<open>value["state"]\<close>.
\<close>

lemma append_states_key_error:
  "\<exists>r \<in> set values. \<not> has_key r ''state'' \<Longrightarrow>
   append_states values states = Inl (KeyError ''state'')"
proof (induction "values" arbitrary: states)
  case Nil
  then show ?case by simp
next
  case (Cons v vs)
  show ?case
  proof (cases "has_key v ''state''")
    case True
    with Cons.prems have "\<exists>r \<in> set vs. \<not> has_key r ''state''" by simp
    from Cons.IH[OF this] True show ?thesis
      by (auto simp: has_key_def getitem_def split: option.splits)
  next
    case False
    then show ?thesis by (simp add: has_key_def getitem_def)
  qed
qed

lemma wait_for_done_key_error:
  "\<exists>r \<in> set values. \<not> has_key r ''state'' \<Longrightarrow>
   wait_for_done values states = Some (Inl (KeyError ''state''))"
  by (subst wait_for_done.simps) (simp add: append_states_key_error)

text \<open>
  C9: for records that all have a \<open>state\<close>, the loop that waits for \<open>DONE\<close>
  terminates if and only if every record's \<open>state\<close> is \<open>DONE\<close> when the loop is
  entered. It then leaves at the end of its first iteration, \<open>states\<close> holding one
  \<open>DONE\<close> per record; otherwise it never leaves.
\<close>

theorem wait_for_done_terminates_iff:
  assumes "\<forall>r \<in> set values. has_key r ''state''"
  shows "wait_for_done values [] =
     (if \<forall>r \<in> set values. getitem r ''state'' = Inr (Str ''DONE'')
      then Some (Inr (replicate (length values) (Str ''DONE'')))
      else None)"
proof (cases "\<forall>r \<in> set values. getitem r ''state'' = Inr (Str ''DONE'')")
  case True
  then show ?thesis
    by (subst wait_for_done.simps) (simp add: append_states_done list_all_length)
next
  case False
  from append_states_keys[OF assms] obtain new where new: "append_states values [] = Inr new"
    "length new = length values"
    "\<forall>i < length values. getitem (values ! i) ''state'' = Inr (new ! i)" by blast
  from False obtain i where "i < length values" "getitem (values ! i) ''state'' \<noteq> Inr (Str ''DONE'')"
    by (auto simp: in_set_conv_nth)
  then have "\<not> list_all (\<lambda>e. Str ''DONE'' = e) new"
    using new(2,3) by (auto simp: list_all_length)
  from wait_for_done_never[OF new(1) this] False show ?thesis by simp
qed

theorem wait_for_done_terminates_iff_witness:
  "wait_for_done
     [train_and_evaluate_model ''random_forest'' 3 12 ''DONE'',
      train_and_evaluate_model ''xgboost'' 2 1 ''DONE''] [] =
     Some (Inr [Str ''DONE'', Str ''DONE''])
   \<and> wait_for_done
     [train_and_evaluate_model ''random_forest'' 3 12 ''DONE'',
      train_and_evaluate_model ''xgboost'' 2 1 ''TRAINING''] [] = None"
proof -
  have a: "\<forall>r \<in> set [train_and_evaluate_model ''random_forest'' 3 12 ''DONE'',
      train_and_evaluate_model ''xgboost'' 2 1 ''DONE'']. has_key r ''state''"
    by (simp add: has_key_def train_and_evaluate_model_def)
  have b: "\<forall>r \<in> set [train_and_evaluate_model ''random_forest'' 3 12 ''DONE'',
      train_and_evaluate_model ''xgboost'' 2 1 ''TRAINING'']. has_key r ''state''"
    by (simp add: has_key_def train_and_evaluate_model_def)
  show ?thesis
    using wait_for_done_terminates_iff [OF a] wait_for_done_terminates_iff [OF b]
    by (simp add: getitem_def train_and_evaluate_model_def)
qed

end
